theory Spec2Isabelle
  imports Main
begin

section \<open>Personal Photo Blog API: the registry of \<open>main.py\<close>\<close>

text \<open>
  The service keeps two module-level variables, \<open>photos_db\<close> (a list of dictionaries) and
  \<open>photo_id_counter\<close> (an integer), and seven route handlers that read or update them.
  The handlers are modelled as functions on a record holding both variables; a handler that
  raises \<open>HTTPException\<close> returns the exception as a value and the state it was given.
\<close>

subsection \<open>Data\<close>

text \<open>
  \<open>class Photo(BaseModel)\<close>: the validated request body. \<open>tags\<close> is
  \<open>Optional[List[str]]\<close>, so a body may carry an explicit null there.
\<close>

record Photo =
  title :: string
  description :: "string option"
  url :: string
  tags :: "string list option"

text \<open>
  The field defaults of the class: \<open>description = None\<close> and \<open>tags = []\<close>. An argument
  of \<open>None\<close> below is a field the body leaves out; \<open>Some v\<close> is a field given as \<open>v\<close>
  (where \<open>v\<close> itself may be Python's \<open>None\<close>). \<open>title\<close> and \<open>url\<close> have no default.
\<close>

definition Photo_init ::
  "string \<Rightarrow> string option option \<Rightarrow> string \<Rightarrow> string list option option \<Rightarrow> Photo" where
  "Photo_init t d u g =
     \<lparr>title = t,
      description = (case d of None \<Rightarrow> None | Some v \<Rightarrow> v),
      url = u,
      tags = (case g of None \<Rightarrow> Some [] | Some v \<Rightarrow> v)\<rparr>"

text \<open>
  The dictionaries stored in \<open>photos_db\<close>, with the keys \<open>id\<close>, \<open>title\<close>,
  \<open>description\<close>, \<open>url\<close>, \<open>tags\<close> and \<open>created_at\<close> that \<open>create_photo\<close> and
  \<open>update_photo\<close> write (the fields carry a prefix, \<open>id\<close> being a HOL constant).
\<close>

record photo_dict =
  d_id :: int
  d_title :: string
  d_description :: "string option"
  d_url :: string
  d_tags :: "string list"
  d_created_at :: string

record state =
  photos_db :: "photo_dict list"
  photo_id_counter :: int

text \<open>\<open>photos_db = []\<close> and \<open>photo_id_counter = 1\<close> at import.\<close>

definition init_state :: state where
  "init_state = \<lparr>photos_db = [], photo_id_counter = 1\<rparr>"

text \<open>
  \<open>HTTPException(status_code, detail)\<close>, and the rejection of a body that does not
  validate against \<open>Photo\<close>, which the framework raises before the handler runs.
\<close>

datatype error = HTTPException nat string | RequestValidationError

subsection \<open>Formatting an integer in an f-string\<close>

text \<open>Python's \<open>str\<close> of an \<open>int\<close>: decimal digits, with a leading minus sign below zero.\<close>

definition digit_char :: "nat \<Rightarrow> char" where
  "digit_char d = ''0123456789'' ! (d mod 10)"

fun str_nat :: "nat \<Rightarrow> string" where
  "str_nat n = (if n < 10 then [digit_char n] else str_nat (n div 10) @ [digit_char (n mod 10)])"

declare str_nat.simps [simp del]

definition str_int :: "int \<Rightarrow> string" where
  "str_int i = (if i < 0 then CHR ''-'' # str_nat (nat (- i)) else str_nat (nat i))"

text \<open>\<open>f"Photo with id {photo_id} not found"\<close> with status 404.\<close>

definition not_found :: "int \<Rightarrow> error" where
  "not_found photo_id = HTTPException 404 (''Photo with id '' @ str_int photo_id @ '' not found'')"

subsection \<open>Reading a decimal form back\<close>

text \<open>
  The value that a string of decimal digits, with an optional leading minus sign, denotes;
  used to state that \<open>str_int\<close> writes its argument and nothing else.
\<close>

definition digit_val :: "char \<Rightarrow> nat" where
  "digit_val c = of_char c - 48"

definition nat_of_str :: "string \<Rightarrow> nat" where
  "nat_of_str s = foldl (\<lambda>a c. 10 * a + digit_val c) 0 s"

definition int_of_str :: "string \<Rightarrow> int" where
  "int_of_str s =
     (case s of
        [] \<Rightarrow> 0
      | c # r \<Rightarrow> if c = CHR ''-'' then - int (nat_of_str r) else int (nat_of_str s))"

text \<open>
  The canonical decimal form of an integer, stated on the string alone: digits only, no
  leading zero except for zero itself, a minus sign exactly below zero, and the value read
  back is the integer.
\<close>

definition is_digit :: "char \<Rightarrow> bool" where
  "is_digit c \<longleftrightarrow> c \<in> set ''0123456789''"

definition canonical_digits :: "string \<Rightarrow> bool" where
  "canonical_digits ds \<longleftrightarrow>
     ds \<noteq> [] \<and> list_all is_digit ds \<and> (hd ds = CHR ''0'' \<longrightarrow> ds = ''0'')"

definition decimal_of :: "int \<Rightarrow> string \<Rightarrow> bool" where
  "decimal_of i s \<longleftrightarrow>
     (if i < 0
      then (case s of
              [] \<Rightarrow> False
            | c # ds \<Rightarrow> c = CHR ''-'' \<and> canonical_digits ds \<and> int (nat_of_str ds) = - i)
      else canonical_digits s \<and> int (nat_of_str s) = i)"

subsection \<open>Handlers\<close>

text \<open>\<open>read_root\<close>: a constant dictionary (message, version, endpoint catalogue).\<close>

definition read_root :: "string \<times> string \<times> (string \<times> string) list" where
  "read_root =
     (''Welcome to Personal Photo Blog API'', ''1.0.0'',
      [(''GET /'', ''API information''),
       (''GET /health'', ''Health check''),
       (''GET /photos'', ''List all photos''),
       (''GET /photos/{photo_id}'', ''Get a specific photo''),
       (''POST /photos'', ''Create a new photo''),
       (''PUT /photos/{photo_id}'', ''Update a photo''),
       (''DELETE /photos/{photo_id}'', ''Delete a photo'')])"

text \<open>
  \<open>health_check\<close>: status, timestamp, \<open>len(photos_db)\<close>. The clock reading
  \<open>datetime.utcnow().isoformat()\<close> is the argument \<open>now\<close>, here and in \<open>create_photo\<close>.
\<close>

definition health_check :: "string \<Rightarrow> state \<Rightarrow> string \<times> string \<times> nat" where
  "health_check now st = (''healthy'', now, length (photos_db st))"

text \<open>
  \<open>list_photos\<close>: \<open>if tag:\<close> holds for a string that is neither \<open>None\<close> nor empty; then
  the comprehension keeps the dictionaries with \<open>tag in p.get("tags", [])\<close>.
\<close>

definition list_photos :: "string option \<Rightarrow> state \<Rightarrow> photo_dict list" where
  "list_photos tag st =
     (case tag of
        None \<Rightarrow> photos_db st
      | Some t \<Rightarrow>
          if t \<noteq> [] then filter (\<lambda>p. t \<in> set (d_tags p)) (photos_db st)
          else photos_db st)"

text \<open>\<open>get_photo\<close>: the \<open>for\<close> loop returns the first dictionary with the id; after it, 404.\<close>

fun get_loop :: "int \<Rightarrow> photo_dict list \<Rightarrow> photo_dict option" where
  "get_loop photo_id [] = None"
| "get_loop photo_id (photo # rest) =
     (if d_id photo = photo_id then Some photo else get_loop photo_id rest)"

definition get_photo :: "int \<Rightarrow> state \<Rightarrow> error + photo_dict" where
  "get_photo photo_id st =
     (case get_loop photo_id (photos_db st) of
        Some photo \<Rightarrow> Inr photo
      | None \<Rightarrow> Inl (not_found photo_id))"

text \<open>\<open>photo.tags or []\<close>: \<open>None\<close> and the empty list are both falsy.\<close>

definition tags_or_empty :: "string list option \<Rightarrow> string list" where
  "tags_or_empty g = (case g of None \<Rightarrow> [] | Some ts \<Rightarrow> if ts \<noteq> [] then ts else [])"

text \<open>
  \<open>create_photo\<close>: builds the dictionary with the counter as id, appends it, adds one to
  the counter and returns the dictionary. It has no failing path.
\<close>

definition create_photo :: "string \<Rightarrow> Photo \<Rightarrow> state \<Rightarrow> photo_dict \<times> state" where
  "create_photo now photo st =
     (let new_photo =
            \<lparr>d_id = photo_id_counter st,
             d_title = title photo,
             d_description = description photo,
             d_url = url photo,
             d_tags = tags_or_empty (tags photo),
             d_created_at = now\<rparr>
      in (new_photo,
          \<lparr>photos_db = photos_db st @ [new_photo],
           photo_id_counter = photo_id_counter st + 1\<rparr>))"

text \<open>
  The loop \<open>for i, p in enumerate(photos_db): if p["id"] == photo_id: ...\<close> shared by
  \<open>update_photo\<close> and \<open>delete_photo\<close>: the first index and dictionary with the id.
\<close>

fun enum_loop :: "int \<Rightarrow> (nat \<times> photo_dict) list \<Rightarrow> (nat \<times> photo_dict) option" where
  "enum_loop photo_id [] = None"
| "enum_loop photo_id ((i, p) # rest) =
     (if d_id p = photo_id then Some (i, p) else enum_loop photo_id rest)"

text \<open>\<open>update_photo\<close>: \<open>photos_db[i] = updated_photo\<close> at the index found, else 404.\<close>

definition update_photo :: "int \<Rightarrow> Photo \<Rightarrow> state \<Rightarrow> (error + photo_dict) \<times> state" where
  "update_photo photo_id photo st =
     (case enum_loop photo_id (enumerate 0 (photos_db st)) of
        Some (i, existing_photo) \<Rightarrow>
          (let updated_photo =
                 \<lparr>d_id = photo_id,
                  d_title = title photo,
                  d_description = description photo,
                  d_url = url photo,
                  d_tags = tags_or_empty (tags photo),
                  d_created_at = d_created_at existing_photo\<rparr>
           in (Inr updated_photo, st\<lparr>photos_db := (photos_db st)[i := updated_photo]\<rparr>))
      | None \<Rightarrow> (Inl (not_found photo_id), st))"

text \<open>
  \<open>delete_photo\<close>: \<open>photos_db.pop(i)\<close> at the index found removes and returns the element
  there (the index comes from \<open>enumerate\<close>, so it is in range); else 404.
\<close>

definition pop :: "nat \<Rightarrow> 'a list \<Rightarrow> 'a list" where
  "pop i xs = take i xs @ drop (Suc i) xs"

definition delete_photo ::
  "int \<Rightarrow> state \<Rightarrow> (error + string \<times> photo_dict) \<times> state" where
  "delete_photo photo_id st =
     (case enum_loop photo_id (enumerate 0 (photos_db st)) of
        Some (i, photo) \<Rightarrow>
          (let deleted_photo = photos_db st ! i
           in (Inr (''Photo '' @ str_int photo_id @ '' deleted successfully'', deleted_photo),
               st\<lparr>photos_db := pop i (photos_db st)\<rparr>))
      | None \<Rightarrow> (Inl (not_found photo_id), st))"

subsection \<open>Requests\<close>

text \<open>
  One request to the application. A \<open>POST\<close> or \<open>PUT\<close> carries a raw body of type \<open>'b\<close>;
  the framework validates it against \<open>Photo\<close> and calls the handler only with a validated
  object. The validation is the pydantic library's, not this repository's, so it is the
  parameter \<open>validate\<close>: \<open>None\<close> for a body it rejects.
\<close>

datatype 'b request =
    Root
  | Health
  | ListPhotos "string option"
  | GetPhoto int
  | CreatePhoto 'b
  | UpdatePhoto int 'b
  | DeletePhoto int

datatype reply =
    RootInfo "string \<times> string \<times> (string \<times> string) list"
  | HealthInfo "string \<times> string \<times> nat"
  | PhotoList "photo_dict list"
  | PhotoFound photo_dict
  | PhotoCreated photo_dict
  | PhotoUpdated photo_dict
  | PhotoDeleted "string \<times> photo_dict"

fun handle ::
  "('b \<Rightarrow> Photo option) \<Rightarrow> string \<Rightarrow> 'b request \<Rightarrow> state \<Rightarrow> (error + reply) \<times> state" where
  "handle validate now Root st = (Inr (RootInfo read_root), st)"
| "handle validate now Health st = (Inr (HealthInfo (health_check now st)), st)"
| "handle validate now (ListPhotos tag) st = (Inr (PhotoList (list_photos tag st)), st)"
| "handle validate now (GetPhoto photo_id) st =
     (case get_photo photo_id st of
        Inl e \<Rightarrow> (Inl e, st)
      | Inr photo \<Rightarrow> (Inr (PhotoFound photo), st))"
| "handle validate now (CreatePhoto body) st =
     (case validate body of
        None \<Rightarrow> (Inl RequestValidationError, st)
      | Some photo \<Rightarrow>
          (case create_photo now photo st of (new_photo, st') \<Rightarrow> (Inr (PhotoCreated new_photo), st')))"
| "handle validate now (UpdatePhoto photo_id body) st =
     (case validate body of
        None \<Rightarrow> (Inl RequestValidationError, st)
      | Some photo \<Rightarrow>
          (case update_photo photo_id photo st of
             (Inl e, st') \<Rightarrow> (Inl e, st')
           | (Inr updated_photo, st') \<Rightarrow> (Inr (PhotoUpdated updated_photo), st')))"
| "handle validate now (DeletePhoto photo_id) st =
     (case delete_photo photo_id st of
        (Inl e, st') \<Rightarrow> (Inl e, st')
      | (Inr r, st') \<Rightarrow> (Inr (PhotoDeleted r), st'))"

text \<open>
  A run of the process: the requests served in order, each with the clock reading at its
  arrival; the result is the replies in order and the final state.
\<close>

fun run ::
  "('b \<Rightarrow> Photo option) \<Rightarrow> (string \<times> 'b request) list \<Rightarrow> state
     \<Rightarrow> (error + reply) list \<times> state" where
  "run validate [] st = ([], st)"
| "run validate ((now, req) # rest) st =
     (case handle validate now req st of
        (r, st') \<Rightarrow> (case run validate rest st' of (rs, st'') \<Rightarrow> (r # rs, st'')))"

text \<open>The ids that the successful creations of a run returned, in order.\<close>

fun created_ids :: "(error + reply) list \<Rightarrow> int list" where
  "created_ids [] = []"
| "created_ids (Inr (PhotoCreated p) # rs) = d_id p # created_ids rs"
| "created_ids (r # rs) = created_ids rs"

text \<open>The states the process can be in: the initial one and those a request leads to.\<close>

inductive reachable :: "('b \<Rightarrow> Photo option) \<Rightarrow> state \<Rightarrow> bool" for validate where
  reachable_init: "reachable validate init_state"
| reachable_step:
    "reachable validate st \<Longrightarrow> handle validate now req st = (r, st') \<Longrightarrow> reachable validate st'"

text \<open>
  What every reachable state satisfies: the ids stored are distinct, positive and below
  the counter.
\<close>

definition wf_state :: "state \<Rightarrow> bool" where
  "wf_state st \<longleftrightarrow>
     1 \<le> photo_id_counter st \<and>
     distinct (map d_id (photos_db st)) \<and>
     list_all (\<lambda>p. 1 \<le> d_id p \<and> d_id p < photo_id_counter st) (photos_db st)"

text \<open>The dictionary that \<open>update_photo\<close> builds from the request and the one it found.\<close>

definition updated_from :: "int \<Rightarrow> Photo \<Rightarrow> photo_dict \<Rightarrow> photo_dict" where
  "updated_from photo_id photo existing_photo =
     \<lparr>d_id = photo_id,
      d_title = title photo,
      d_description = description photo,
      d_url = url photo,
      d_tags = tags_or_empty (tags photo),
      d_created_at = d_created_at existing_photo\<rparr>"

text \<open>Whether a reply is that of a successful \<open>create_photo\<close>.\<close>

fun is_created :: "error + reply \<Rightarrow> bool" where
  "is_created (Inr (PhotoCreated p)) = True"
| "is_created r = False"

subsection \<open>A sample run\<close>

text \<open>
  Three creations from the initial state, with the tags of the scenario of the test
  scripts. Here a raw body is either a \<open>Photo\<close> that validated or \<open>None\<close> for one that
  did not, so the validation is the identity.
\<close>

definition photo_sunset :: Photo where
  "photo_sunset =
     Photo_init ''Sunset'' (Some (Some ''Beach at dusk'')) ''https://example.com/sunset.jpg''
       (Some (Some [''nature'', ''beach'']))"

definition photo_peak :: Photo where
  "photo_peak =
     Photo_init ''Peak'' None ''https://example.com/peak.jpg'' (Some (Some [''mountain'']))"

definition photo_valley :: Photo where
  "photo_valley =
     Photo_init ''Valley'' (Some None) ''https://example.com/valley.jpg''
       (Some (Some [''nature'', ''landscape'']))"

definition photo_minimal :: Photo where
  "photo_minimal = Photo_init ''Minimal'' None ''https://example.com/minimal.jpg'' None"

definition demo_requests :: "(string \<times> Photo option request) list" where
  "demo_requests =
     [(''2024-01-01T10:00:00'', CreatePhoto (Some photo_sunset)),
      (''2024-01-01T10:00:01'', CreatePhoto (Some photo_peak)),
      (''2024-01-01T10:00:02'', CreatePhoto (Some photo_valley))]"

definition demo_state :: state where
  "demo_state = snd (run id demo_requests init_state)"

text \<open>The dictionaries that the run stores, the requests that follow the three creations, and
  the replies and final state expected of the whole run.\<close>

definition dict_sunset :: photo_dict where
  "dict_sunset =
     \<lparr>d_id = 1, d_title = ''Sunset'', d_description = Some ''Beach at dusk'',
      d_url = ''https://example.com/sunset.jpg'', d_tags = [''nature'', ''beach''],
      d_created_at = ''2024-01-01T10:00:00''\<rparr>"

definition dict_peak :: photo_dict where
  "dict_peak =
     \<lparr>d_id = 2, d_title = ''Peak'', d_description = None,
      d_url = ''https://example.com/peak.jpg'', d_tags = [''mountain''],
      d_created_at = ''2024-01-01T10:00:01''\<rparr>"

definition dict_valley :: photo_dict where
  "dict_valley =
     \<lparr>d_id = 3, d_title = ''Valley'', d_description = None,
      d_url = ''https://example.com/valley.jpg'', d_tags = [''nature'', ''landscape''],
      d_created_at = ''2024-01-01T10:00:02''\<rparr>"

definition dict_minimal :: photo_dict where
  "dict_minimal =
     \<lparr>d_id = 4, d_title = ''Minimal'', d_description = None,
      d_url = ''https://example.com/minimal.jpg'', d_tags = [],
      d_created_at = ''2024-01-01T10:00:05''\<rparr>"

definition later_requests :: "(string \<times> Photo option request) list" where
  "later_requests =
     [(''2024-01-01T10:00:03'', DeletePhoto 2),
      (''2024-01-01T10:00:04'', GetPhoto 2),
      (''2024-01-01T10:00:05'', CreatePhoto (Some photo_minimal)),
      (''2024-01-01T10:00:06'', UpdatePhoto 999 (Some photo_minimal)),
      (''2024-01-01T10:00:07'', CreatePhoto None)]"

definition sample_replies :: "(error + reply) list" where
  "sample_replies =
     [Inr (PhotoCreated dict_sunset),
      Inr (PhotoCreated dict_peak),
      Inr (PhotoCreated dict_valley),
      Inr (PhotoDeleted (''Photo 2 deleted successfully'', dict_peak)),
      Inl (HTTPException 404 ''Photo with id 2 not found''),
      Inr (PhotoCreated dict_minimal),
      Inl (HTTPException 404 ''Photo with id 999 not found''),
      Inl RequestValidationError]"

definition sample_final :: state where
  "sample_final = \<lparr>photos_db = [dict_sunset, dict_valley, dict_minimal], photo_id_counter = 5\<rparr>"

text \<open>A replacement that gives a description and tags, and the records expected of replacing
  the second record by it and by the minimal body.\<close>

definition photo_updated :: Photo where
  "photo_updated =
     Photo_init ''Updated Title'' (Some (Some ''New description''))
       ''https://example.com/updated.jpg'' (Some (Some [''updated'', ''modified'']))"

definition dict_peak_updated :: photo_dict where
  "dict_peak_updated =
     \<lparr>d_id = 2, d_title = ''Updated Title'', d_description = Some ''New description'',
      d_url = ''https://example.com/updated.jpg'', d_tags = [''updated'', ''modified''],
      d_created_at = ''2024-01-01T10:00:01''\<rparr>"

definition dict_peak_minimal :: photo_dict where
  "dict_peak_minimal =
     \<lparr>d_id = 2, d_title = ''Minimal'', d_description = None,
      d_url = ''https://example.com/minimal.jpg'', d_tags = [],
      d_created_at = ''2024-01-01T10:00:01''\<rparr>"

section \<open>Properties\<close>

subsection \<open>The loops\<close>

lemma enum_loop_None:
  "enum_loop photo_id (enumerate n db) = None \<longleftrightarrow> photo_id \<notin> d_id ` set db"
  by (induction db arbitrary: n) auto

lemma enum_loop_Some:
  "enum_loop photo_id (enumerate n db) = Some (i, p) \<Longrightarrow>
     \<exists>xs ys. db = xs @ p # ys \<and> i = n + length xs \<and> d_id p = photo_id
       \<and> photo_id \<notin> d_id ` set xs"
proof (induction db arbitrary: n)
  case Nil
  then show ?case by simp
next
  case (Cons q db)
  show ?case
  proof (cases "d_id q = photo_id")
    case True
    with Cons.prems have "i = n" "p = q" by simp_all
    with True show ?thesis by (intro exI [of _ "[]"] exI [of _ db]) simp
  next
    case False
    with Cons.prems have "enum_loop photo_id (enumerate (Suc n) db) = Some (i, p)" by simp
    from Cons.IH [OF this] obtain xs ys where
      "db = xs @ p # ys" "i = Suc n + length xs" "d_id p = photo_id" "photo_id \<notin> d_id ` set xs"
      by blast
    with False show ?thesis by (intro exI [of _ "q # xs"] exI [of _ ys]) simp
  qed
qed

lemma get_loop_None:
  "get_loop photo_id db = None \<longleftrightarrow> photo_id \<notin> d_id ` set db"
  by (induction db) auto

lemma get_loop_Some:
  "get_loop photo_id db = Some p \<Longrightarrow> p \<in> set db \<and> d_id p = photo_id"
  by (induction db) (auto split: if_splits)

lemma get_loop_append:
  "photo_id \<notin> d_id ` set xs \<Longrightarrow> get_loop photo_id (xs @ ys) = get_loop photo_id ys"
  by (induction xs) auto

lemma pop_split: "pop (length xs) (xs @ p # ys) = xs @ ys"
  by (simp add: pop_def)

subsection \<open>What update and delete do\<close>

lemma update_photo_absent:
  "photo_id \<notin> d_id ` set (photos_db st) \<Longrightarrow>
     update_photo photo_id photo st = (Inl (not_found photo_id), st)"
  using enum_loop_None [of photo_id 0 "photos_db st"] by (simp add: update_photo_def)

lemma update_photo_present:
  assumes "photo_id \<in> d_id ` set (photos_db st)"
  shows "\<exists>xs old ys. photos_db st = xs @ old # ys \<and> d_id old = photo_id
           \<and> photo_id \<notin> d_id ` set xs
           \<and> update_photo photo_id photo st =
               (Inr (updated_from photo_id photo old),
                st\<lparr>photos_db := xs @ updated_from photo_id photo old # ys\<rparr>)"
proof -
  from assms enum_loop_None [of photo_id 0 "photos_db st"]
  obtain i p where found: "enum_loop photo_id (enumerate 0 (photos_db st)) = Some (i, p)"
    by (cases "enum_loop photo_id (enumerate 0 (photos_db st))") auto
  from enum_loop_Some [OF found] obtain xs ys where
    split: "photos_db st = xs @ p # ys" "i = length xs" "d_id p = photo_id"
      "photo_id \<notin> d_id ` set xs"
    by auto
  have "update_photo photo_id photo st =
          (Inr (updated_from photo_id photo p),
           st\<lparr>photos_db := xs @ updated_from photo_id photo p # ys\<rparr>)"
    using found split by (simp add: update_photo_def updated_from_def Let_def)
  with split show ?thesis by blast
qed

lemma delete_photo_absent:
  "photo_id \<notin> d_id ` set (photos_db st) \<Longrightarrow>
     delete_photo photo_id st = (Inl (not_found photo_id), st)"
  using enum_loop_None [of photo_id 0 "photos_db st"] by (simp add: delete_photo_def)

lemma delete_photo_present:
  assumes "photo_id \<in> d_id ` set (photos_db st)"
  shows "\<exists>xs old ys. photos_db st = xs @ old # ys \<and> d_id old = photo_id
           \<and> photo_id \<notin> d_id ` set xs
           \<and> delete_photo photo_id st =
               (Inr (''Photo '' @ str_int photo_id @ '' deleted successfully'', old),
                st\<lparr>photos_db := xs @ ys\<rparr>)"
proof -
  from assms enum_loop_None [of photo_id 0 "photos_db st"]
  obtain i p where found: "enum_loop photo_id (enumerate 0 (photos_db st)) = Some (i, p)"
    by (cases "enum_loop photo_id (enumerate 0 (photos_db st))") auto
  from enum_loop_Some [OF found] obtain xs ys where
    split: "photos_db st = xs @ p # ys" "i = length xs" "d_id p = photo_id"
      "photo_id \<notin> d_id ` set xs"
    by auto
  have "delete_photo photo_id st =
          (Inr (''Photo '' @ str_int photo_id @ '' deleted successfully'', p),
           st\<lparr>photos_db := xs @ ys\<rparr>)"
    using found split by (simp add: delete_photo_def pop_def Let_def)
  with split show ?thesis by blast
qed

lemma get_photo_absent:
  "photo_id \<notin> d_id ` set (photos_db st) \<Longrightarrow> get_photo photo_id st = Inl (not_found photo_id)"
  using get_loop_None [of photo_id "photos_db st"] by (simp add: get_photo_def)

subsection \<open>The invariant\<close>

lemma wf_state_create: "wf_state st \<Longrightarrow> create_photo now photo st = (p, st') \<Longrightarrow> wf_state st'"
  by (fastforce simp: wf_state_def create_photo_def list_all_iff Let_def)

lemma wf_state_update:
  assumes "wf_state st" and "update_photo photo_id photo st = (r, st')" shows "wf_state st'"
proof (cases "photo_id \<in> d_id ` set (photos_db st)")
  case False
  with assms show ?thesis by (simp add: update_photo_absent)
next
  case True
  from update_photo_present [OF True, of photo] obtain xs old ys where
    "photos_db st = xs @ old # ys" "d_id old = photo_id"
    "update_photo photo_id photo st =
       (Inr (updated_from photo_id photo old),
        st\<lparr>photos_db := xs @ updated_from photo_id photo old # ys\<rparr>)"
    by blast
  with assms show ?thesis by (auto simp: wf_state_def updated_from_def)
qed

lemma wf_state_delete:
  assumes "wf_state st" and "delete_photo photo_id st = (r, st')" shows "wf_state st'"
proof (cases "photo_id \<in> d_id ` set (photos_db st)")
  case False
  with assms show ?thesis by (simp add: delete_photo_absent)
next
  case True
  from delete_photo_present [OF True] obtain xs old ys where
    "photos_db st = xs @ old # ys"
    "delete_photo photo_id st =
       (Inr (''Photo '' @ str_int photo_id @ '' deleted successfully'', old),
        st\<lparr>photos_db := xs @ ys\<rparr>)"
    by blast
  with assms show ?thesis by (auto simp: wf_state_def)
qed

lemma wf_state_handle:
  assumes "wf_state st" and "handle validate now req st = (r, st')"
  shows "wf_state st'"
proof (cases req)
  case (CreatePhoto body)
  with assms show ?thesis
    by (auto split: option.splits prod.splits dest: wf_state_create)
next
  case (UpdatePhoto photo_id body)
  with assms show ?thesis
    by (auto split: option.splits prod.splits sum.splits dest: wf_state_update)
next
  case (DeletePhoto photo_id)
  with assms show ?thesis
    by (auto split: prod.splits sum.splits dest: wf_state_delete)
qed (use assms in \<open>auto split: sum.splits\<close>)

lemma wf_state_init: "wf_state init_state"
  by (simp add: wf_state_def init_state_def)

lemma reachable_wf_state: "reachable validate st \<Longrightarrow> wf_state st"
  by (induction rule: reachable.induct) (auto intro: wf_state_init wf_state_handle)


subsection \<open>The decimal form\<close>

lemma digit_val_digit_char: "d < 10 \<Longrightarrow> digit_val (digit_char d) = d"
proof -
  assume "d < 10"
  then have "d \<in> {0, 1, 2, 3, 4, 5, 6, 7, 8, 9}" by auto
  then show ?thesis by (auto simp: digit_char_def digit_val_def)
qed

lemma digit_char_not_minus: "digit_char d \<noteq> CHR ''-''"
proof -
  define k where "k = d mod 10"
  then have "k < 10" by simp
  then have "k \<in> {0, 1, 2, 3, 4, 5, 6, 7, 8, 9}" by auto
  then have "''0123456789'' ! k \<noteq> CHR ''-''" by (elim insertE) simp_all
  then show ?thesis by (simp add: digit_char_def k_def)
qed

lemma nat_of_str_snoc: "nat_of_str (s @ [c]) = 10 * nat_of_str s + digit_val c"
  by (simp add: nat_of_str_def)

lemma nat_of_str_str_nat: "nat_of_str (str_nat n) = n"
proof (induction n rule: str_nat.induct)
  case (1 n)
  show ?case
  proof (cases "n < 10")
    case True
    then show ?thesis
      by (subst str_nat.simps) (simp add: nat_of_str_def digit_val_digit_char)
  next
    case False
    with 1 have "nat_of_str (str_nat (n div 10)) = n div 10" by simp
    with False show ?thesis
      by (subst str_nat.simps) (simp add: nat_of_str_snoc digit_val_digit_char)
  qed
qed

lemma str_nat_hd: "\<exists>d r. str_nat n = digit_char d # r"
proof (induction n rule: str_nat.induct)
  case (1 n)
  show ?case
  proof (cases "n < 10")
    case True
    then show ?thesis by (subst str_nat.simps) auto
  next
    case False
    with 1 obtain d r where "str_nat (n div 10) = digit_char d # r" by blast
    with False show ?thesis by (subst str_nat.simps) auto
  qed
qed

lemma int_of_str_str_int: "int_of_str (str_int i) = i"
proof (cases "i < 0")
  case True
  then show ?thesis by (simp add: str_int_def int_of_str_def nat_of_str_str_nat)
next
  case False
  obtain d r where s: "str_nat (nat i) = digit_char d # r" using str_nat_hd by blast
  have "int_of_str (str_nat (nat i)) = int (nat_of_str (str_nat (nat i)))"
    unfolding s by (simp add: int_of_str_def digit_char_not_minus)
  with False show ?thesis by (simp add: str_int_def nat_of_str_str_nat)
qed

lemma str_int_inj: "str_int i = str_int j \<Longrightarrow> i = j"
  by (metis int_of_str_str_int)

lemma is_digit_digit_char: "is_digit (digit_char d)"
proof -
  define k where "k = d mod 10"
  then have "k < 10" by simp
  then have "k \<in> {0, 1, 2, 3, 4, 5, 6, 7, 8, 9}" by auto
  then have "is_digit (''0123456789'' ! k)" unfolding is_digit_def by (elim insertE) simp_all
  then show ?thesis by (simp add: digit_char_def k_def)
qed

lemma digit_char_digit_val: "is_digit c \<Longrightarrow> digit_char (digit_val c) = c"
  by (auto simp: is_digit_def digit_char_def digit_val_def)

lemma digit_val_less: "is_digit c \<Longrightarrow> digit_val c < 10"
  by (auto simp: is_digit_def digit_val_def)

lemma digit_val_zero: "is_digit c \<Longrightarrow> digit_val c = 0 \<Longrightarrow> c = CHR ''0''"
  by (auto simp: is_digit_def digit_val_def)

lemma digit_char_zero: "d < 10 \<Longrightarrow> digit_char d = CHR ''0'' \<Longrightarrow> d = 0"
  using digit_val_digit_char [of d] by (simp add: digit_val_def)

lemma str_nat_not_Nil: "str_nat n \<noteq> []"
  by (subst str_nat.simps) simp

lemma str_nat_small: "n < 10 \<Longrightarrow> str_nat n = [digit_char n]"
  by (subst str_nat.simps) simp

lemma str_nat_large:
  "\<not> n < 10 \<Longrightarrow> str_nat n = str_nat (n div 10) @ [digit_char (n mod 10)]"
  by (subst str_nat.simps) simp

lemma str_nat_digits: "list_all is_digit (str_nat n)"
proof (induction n rule: str_nat.induct)
  case (1 n)
  then show ?case
    by (cases "n < 10") (simp_all add: str_nat_small str_nat_large is_digit_digit_char)
qed

lemma str_nat_hd_zero: "hd (str_nat n) = CHR ''0'' \<Longrightarrow> n = 0"
proof (induction n rule: str_nat.induct)
  case (1 n)
  show ?case
  proof (cases "n < 10")
    case True
    with "1.prems" show ?thesis by (simp add: str_nat_small digit_char_zero)
  next
    case False
    with "1.prems" have "hd (str_nat (n div 10)) = CHR ''0''"
      by (simp add: str_nat_large str_nat_not_Nil)
    with 1 False have "n div 10 = 0" by simp
    with False show ?thesis by simp
  qed
qed

lemma canonical_digits_str_nat: "canonical_digits (str_nat n)"
proof -
  have "hd (str_nat n) = CHR ''0'' \<longrightarrow> str_nat n = ''0''"
  proof
    assume "hd (str_nat n) = CHR ''0''"
    then have "n = 0" by (rule str_nat_hd_zero)
    then show "str_nat n = ''0''" by (simp add: str_nat_small digit_char_def)
  qed
  then show ?thesis
    by (simp add: canonical_digits_def str_nat_not_Nil str_nat_digits)
qed

lemma decimal_of_str_int: "decimal_of i (str_int i)"
proof (cases "i < 0")
  case True
  then show ?thesis
    by (simp add: decimal_of_def str_int_def canonical_digits_str_nat nat_of_str_str_nat)
next
  case False
  then show ?thesis
    by (simp add: decimal_of_def str_int_def canonical_digits_str_nat nat_of_str_str_nat)
qed

lemma nat_of_str_pos:
  "ds \<noteq> [] \<Longrightarrow> list_all is_digit ds \<Longrightarrow> hd ds \<noteq> CHR ''0'' \<Longrightarrow> 0 < nat_of_str ds"
proof (induction ds rule: rev_induct)
  case Nil
  then show ?case by simp
next
  case (snoc c ds)
  show ?case
  proof (cases "ds = []")
    case True
    with snoc.prems have "is_digit c" "c \<noteq> CHR ''0''" by simp_all
    then have "digit_val c \<noteq> 0" using digit_val_zero by blast
    with True show ?thesis by (simp add: nat_of_str_def)
  next
    case False
    with snoc have "0 < nat_of_str ds" by simp
    then show ?thesis by (simp add: nat_of_str_snoc)
  qed
qed

lemma str_nat_nat_of_str: "canonical_digits ds \<Longrightarrow> str_nat (nat_of_str ds) = ds"
proof (induction ds rule: rev_induct)
  case Nil
  then show ?case by (simp add: canonical_digits_def)
next
  case (snoc c ds)
  from snoc.prems have c: "is_digit c" and all: "list_all is_digit ds"
    by (simp_all add: canonical_digits_def)
  show ?case
  proof (cases "ds = []")
    case True
    with c show ?thesis
      by (simp add: nat_of_str_def str_nat_small digit_val_less digit_char_digit_val)
  next
    case False
    with snoc.prems have hd: "hd ds \<noteq> CHR ''0''"
      by (auto simp: canonical_digits_def)
    with False all have canon: "canonical_digits ds" by (simp add: canonical_digits_def)
    from nat_of_str_pos [OF False all hd] have pos: "0 < nat_of_str ds" .
    from c have lt: "digit_val c < 10" by (rule digit_val_less)
    let ?n = "10 * nat_of_str ds + digit_val c"
    from pos have big: "\<not> ?n < 10" by simp
    from lt have "?n div 10 = nat_of_str ds" and "?n mod 10 = digit_val c" by simp_all
    with str_nat_large [OF big] snoc.IH [OF canon] c
    show ?thesis by (simp add: nat_of_str_snoc digit_char_digit_val)
  qed
qed

lemma decimal_of_unique: "decimal_of i s \<Longrightarrow> s = str_int i"
proof (cases "i < 0")
  case True
  assume "decimal_of i s"
  with True obtain ds where s: "s = CHR ''-'' # ds" and c: "canonical_digits ds"
    and v: "int (nat_of_str ds) = - i"
    by (auto simp: decimal_of_def split: list.splits)
  from v have "nat_of_str ds = nat (- i)" by simp
  with str_nat_nat_of_str [OF c] have "str_nat (nat (- i)) = ds" by simp
  with True s show ?thesis by (simp add: str_int_def)
next
  case False
  assume "decimal_of i s"
  with False have c: "canonical_digits s" and v: "int (nat_of_str s) = i"
    by (simp_all add: decimal_of_def)
  from v have "nat_of_str s = nat i" by simp
  with str_nat_nat_of_str [OF c] have "str_nat (nat i) = s" by simp
  with False show ?thesis by (simp add: str_int_def)
qed

subsection \<open>Listing\<close>

lemma list_photos_None: "list_photos None st = photos_db st"
  by (simp add: list_photos_def)

text \<open>
  C10: \<open>list_photos\<close> called with the empty string as tag returns what it returns with no
  tag, namely the whole of \<open>photos_db\<close> in its order; the dictionaries whose tags do not
  contain the empty string are returned too, since the filter runs only for a truthy tag.
\<close>

theorem list_photos_empty_tag:
  "list_photos (Some []) st = list_photos None st \<and>
   list_photos (Some []) st = photos_db st"
  by (simp add: list_photos_def)

text \<open>
  C4, for a tag that is not the empty string: \<open>list_photos\<close> returns exactly the
  records whose tags contain the tag, in the order of the collection, and the empty list
  when no record has it. (For the empty string see C10.)
\<close>

theorem list_photos_nonempty_tag:
  assumes "T \<noteq> []"
  shows "list_photos (Some T) st = filter (\<lambda>p. T \<in> set (d_tags p)) (photos_db st) \<and>
         ((\<forall>p \<in> set (photos_db st). T \<notin> set (d_tags p)) \<longrightarrow> list_photos (Some T) st = [])"
  using assms by (auto simp: list_photos_def filter_empty_conv)

subsection \<open>The counter and the ids\<close>

lemma created_ids_Cons:
  "created_ids (r # rs) =
     (case r of Inr (PhotoCreated p) \<Rightarrow> d_id p # created_ids rs | _ \<Rightarrow> created_ids rs)"
  by (cases "(r # rs)" rule: created_ids.cases) auto

lemma update_photo_counter:
  "update_photo photo_id photo st = (r, st') \<Longrightarrow> photo_id_counter st' = photo_id_counter st"
  by (auto simp: update_photo_def Let_def split: option.splits prod.splits)

lemma delete_photo_counter:
  "delete_photo photo_id st = (r, st') \<Longrightarrow> photo_id_counter st' = photo_id_counter st"
  by (auto simp: delete_photo_def Let_def split: option.splits prod.splits)

lemma handle_created:
  assumes "handle validate now req st = (r, st')" and "is_created r"
  shows "\<exists>p. r = Inr (PhotoCreated p) \<and> d_id p = photo_id_counter st
           \<and> photo_id_counter st' = photo_id_counter st + 1"
  using assms
  by (cases req) (auto simp: create_photo_def Let_def split: option.splits prod.splits sum.splits)

lemma handle_not_created:
  assumes "handle validate now req st = (r, st')" and "\<not> is_created r"
  shows "photo_id_counter st' = photo_id_counter st"
  using assms
  by (cases req)
     (auto split: option.splits prod.splits sum.splits
           dest: update_photo_counter delete_photo_counter)

lemma is_created_iff:
  "is_created (fst (handle validate now req st)) \<longleftrightarrow>
     (\<exists>body photo. req = CreatePhoto body \<and> validate body = Some photo)"
  by (cases req) (auto split: option.splits prod.splits sum.splits)

lemma run_created_ids:
  "run validate evs st = (rs, st') \<Longrightarrow>
     created_ids rs = [photo_id_counter st .. photo_id_counter st + int (length (created_ids rs)) - 1]
     \<and> photo_id_counter st' = photo_id_counter st + int (length (created_ids rs))"
proof (induction evs arbitrary: st rs st')
  case Nil
  then show ?case by simp
next
  case (Cons ev evs)
  obtain now req where ev: "ev = (now, req)" by (cases ev)
  obtain r st1 where h: "handle validate now req st = (r, st1)" by (cases "handle validate now req st")
  obtain rs1 st2 where t: "run validate evs st1 = (rs1, st2)" by (cases "run validate evs st1")
  from Cons.prems ev h t have rs: "rs = r # rs1" and st': "st' = st2" by simp_all
  note IH = Cons.IH [OF t]
  show ?case
  proof (cases "is_created r")
    case True
    from handle_created [OF h True] obtain p where
      p: "r = Inr (PhotoCreated p)" "d_id p = photo_id_counter st"
         "photo_id_counter st1 = photo_id_counter st + 1"
      by blast
    have ids: "created_ids rs = photo_id_counter st # created_ids rs1"
      using rs p by simp
    have "[photo_id_counter st .. photo_id_counter st + int (length (created_ids rs)) - 1]
            = photo_id_counter st # [photo_id_counter st + 1 .. photo_id_counter st + 1 + int (length (created_ids rs1)) - 1]"
      using ids by (subst upto_rec1) (simp_all add: algebra_simps)
    with IH p ids st' show ?thesis by simp
  next
    case False
    from handle_not_created [OF h False] have c: "photo_id_counter st1 = photo_id_counter st" .
    from False have "created_ids rs = created_ids rs1"
      unfolding rs by (cases r rule: is_created.cases) simp_all
    with IH c st' show ?thesis by simp
  qed
qed

text \<open>
  C1: the counter starts at 1; in any run from the initial state, whatever requests are
  interleaved, the ids returned by the successful creations are 1, 2, ..., k in this order
  (so strictly increasing and consecutive) and the counter ends at 1 + k; a request adds
  exactly one to the counter when its reply is a creation, which then carries the old
  counter as id, and leaves the counter alone otherwise; a reply is a creation exactly for
  a create request whose body validates; \<open>delete_photo\<close> never changes the counter.
\<close>

theorem create_ids_consecutive:
  assumes "run validate evs init_state = (rs, st)"
    and "handle validate now req s = (r, s')"
  shows "photo_id_counter init_state = 1 \<and>
         created_ids rs = [1 .. int (length (created_ids rs))] \<and>
         sorted_wrt (<) (created_ids rs) \<and>
         photo_id_counter st = 1 + int (length (created_ids rs)) \<and>
         photo_id_counter s' = (if is_created r then photo_id_counter s + 1 else photo_id_counter s) \<and>
         (is_created r \<longrightarrow> created_ids [r] = [photo_id_counter s]) \<and>
         (is_created r \<longleftrightarrow> (\<exists>body photo. req = CreatePhoto body \<and> validate body = Some photo)) \<and>
         photo_id_counter (snd (delete_photo photo_id s)) = photo_id_counter s"
proof -
  have c1: "photo_id_counter init_state = 1" by (simp add: init_state_def)
  from run_created_ids [OF assms(1)]
  have ids: "created_ids rs = [1 .. int (length (created_ids rs))]"
    and fin: "photo_id_counter st = 1 + int (length (created_ids rs))"
    by (simp_all add: init_state_def)
  have "sorted_wrt (<) [1 .. int (length (created_ids rs))]"
    by (simp add: strict_sorted_iff)
  with ids have inc: "sorted_wrt (<) (created_ids rs)" by simp
  have step: "photo_id_counter s' = (if is_created r then photo_id_counter s + 1 else photo_id_counter s)"
    using handle_created [OF assms(2)] handle_not_created [OF assms(2)] by auto
  have ret: "is_created r \<longrightarrow> created_ids [r] = [photo_id_counter s]"
    using handle_created [OF assms(2)] by auto
  have iff: "is_created r \<longleftrightarrow> (\<exists>body photo. req = CreatePhoto body \<and> validate body = Some photo)"
    using is_created_iff [of validate now req s] assms(2) by simp
  have del: "photo_id_counter (snd (delete_photo photo_id s)) = photo_id_counter s"
    using delete_photo_counter [of photo_id s] by (cases "delete_photo photo_id s") auto
  from c1 ids inc fin step ret iff del show ?thesis by blast
qed

subsection \<open>Failure, replacement, creation and deletion\<close>

lemma handle_failure:
  assumes "handle validate now req st = (Inl e, st')"
  shows "st' = st"
  using assms
proof (cases req)
  case (UpdatePhoto photo_id body)
  show ?thesis
  proof (cases "validate body")
    case None
    with assms UpdatePhoto show ?thesis by simp
  next
    case (Some photo)
    show ?thesis
    proof (cases "photo_id \<in> d_id ` set (photos_db st)")
      case True
      from update_photo_present [OF True, of photo] assms UpdatePhoto Some
      show ?thesis by auto
    next
      case False
      from update_photo_absent [OF False, of photo] assms UpdatePhoto Some
      show ?thesis by auto
    qed
  qed
next
  case (DeletePhoto photo_id)
  show ?thesis
  proof (cases "photo_id \<in> d_id ` set (photos_db st)")
    case True
    from delete_photo_present [OF True] assms DeletePhoto
    show ?thesis by auto
  next
    case False
    from delete_photo_absent [OF False] assms DeletePhoto
    show ?thesis by auto
  qed
qed (auto simp: create_photo_def Let_def split: sum.splits option.splits)

lemma handle_failure_kind:
  assumes "handle validate now req st = (Inl e, st')"
  shows "(e = RequestValidationError \<and>
            (\<exists>body. (req = CreatePhoto body \<or> (\<exists>photo_id. req = UpdatePhoto photo_id body))
               \<and> validate body = None)) \<or>
         (\<exists>photo_id. e = not_found photo_id \<and> photo_id \<notin> d_id ` set (photos_db st) \<and>
            (req = GetPhoto photo_id \<or> (\<exists>body. req = UpdatePhoto photo_id body)
               \<or> req = DeletePhoto photo_id))"
proof (cases req)
  case (GetPhoto photo_id)
  with assms show ?thesis
    using get_loop_None [of photo_id "photos_db st"]
    by (auto simp: get_photo_def split: option.splits)
next
  case (CreatePhoto body)
  with assms show ?thesis
    by (auto simp: create_photo_def Let_def split: option.splits)
next
  case (UpdatePhoto photo_id body)
  show ?thesis
  proof (cases "validate body")
    case None
    with assms UpdatePhoto show ?thesis by simp
  next
    case (Some photo)
    show ?thesis
    proof (cases "photo_id \<in> d_id ` set (photos_db st)")
      case True
      from update_photo_present [OF True, of photo] assms UpdatePhoto Some
      show ?thesis by auto
    next
      case False
      from update_photo_absent [OF False, of photo] assms UpdatePhoto Some False
      show ?thesis by auto
    qed
  qed
next
  case (DeletePhoto photo_id)
  show ?thesis
  proof (cases "photo_id \<in> d_id ` set (photos_db st)")
    case True
    from delete_photo_present [OF True] assms DeletePhoto
    show ?thesis by auto
  next
    case False
    from delete_photo_absent [OF False] assms DeletePhoto False
    show ?thesis by auto
  qed
qed (use assms in auto)

text \<open>
  C2: a request that fails leaves the collection and the counter as they were, so a
  listing afterwards is what it was before; the failure is either the rejection of a
  body by validation (create, replace) or the 404 of an id that no record has (get,
  replace, delete).
\<close>

theorem failed_request_leaves_state:
  assumes "handle validate now req st = (Inl e, st')"
  shows "st' = st \<and>
         list_photos tag st' = list_photos tag st \<and>
         ((e = RequestValidationError \<and>
            (\<exists>body. (req = CreatePhoto body \<or> (\<exists>photo_id. req = UpdatePhoto photo_id body))
               \<and> validate body = None)) \<or>
          (\<exists>photo_id. e = not_found photo_id \<and> photo_id \<notin> d_id ` set (photos_db st) \<and>
            (req = GetPhoto photo_id \<or> (\<exists>body. req = UpdatePhoto photo_id body)
               \<or> req = DeletePhoto photo_id)))"
  using handle_failure [OF assms] handle_failure_kind [OF assms] by simp

text \<open>
  C3: when a record with the id exists, \<open>update_photo\<close> succeeds; the first such record
  \<open>old\<close> is replaced, at its position, by the record with the id and \<open>created_at\<close> of
  \<open>old\<close>, the title, description and url of the input, and the tags of the input (the
  empty list when the input has none); description and tags are what \<open>create_photo\<close>
  would store for that input; the records before and after it and the counter are
  unchanged; the new record is the one returned.
\<close>

theorem update_photo_overwrites:
  assumes "photo_id \<in> d_id ` set (photos_db st)"
  shows "\<exists>xs old ys.
           photos_db st = xs @ old # ys \<and> d_id old = photo_id \<and> photo_id \<notin> d_id ` set xs \<and>
           update_photo photo_id photo st =
             (Inr (updated_from photo_id photo old),
              \<lparr>photos_db = xs @ updated_from photo_id photo old # ys,
               photo_id_counter = photo_id_counter st\<rparr>) \<and>
           updated_from photo_id photo old =
             \<lparr>d_id = d_id old,
              d_title = title photo,
              d_description = description photo,
              d_url = url photo,
              d_tags = (case tags photo of None \<Rightarrow> [] | Some ts \<Rightarrow> ts),
              d_created_at = d_created_at old\<rparr> \<and>
           d_id (updated_from photo_id photo old) = d_id old \<and>
           d_created_at (updated_from photo_id photo old) = d_created_at old \<and>
           d_title (updated_from photo_id photo old) = title photo \<and>
           d_url (updated_from photo_id photo old) = url photo \<and>
           d_description (updated_from photo_id photo old) = description photo \<and>
           d_tags (updated_from photo_id photo old)
             = (case tags photo of None \<Rightarrow> [] | Some ts \<Rightarrow> ts) \<and>
           d_description (updated_from photo_id photo old)
             = d_description (fst (create_photo now photo st)) \<and>
           d_tags (updated_from photo_id photo old) = d_tags (fst (create_photo now photo st))"
proof -
  from update_photo_present [OF assms, of photo] obtain xs old ys where
    *: "photos_db st = xs @ old # ys" "d_id old = photo_id" "photo_id \<notin> d_id ` set xs"
       "update_photo photo_id photo st =
               (Inr (updated_from photo_id photo old),
                st\<lparr>photos_db := xs @ updated_from photo_id photo old # ys\<rparr>)"
    by blast
  have "st\<lparr>photos_db := xs @ updated_from photo_id photo old # ys\<rparr>
          = \<lparr>photos_db = xs @ updated_from photo_id photo old # ys,
               photo_id_counter = photo_id_counter st\<rparr>"
    by simp
  with * show ?thesis
    by (intro exI [of _ xs] exI [of _ old] exI [of _ ys])
       (simp add: updated_from_def create_photo_def Let_def tags_or_empty_def
             split: option.splits)
qed

lemma get_photo_created:
  assumes "wf_state st"
  shows "get_photo (d_id (fst (create_photo now photo st))) (snd (create_photo now photo st))
           = Inr (fst (create_photo now photo st))"
proof -
  from assms have "photo_id_counter st \<notin> d_id ` set (photos_db st)"
    by (auto simp: wf_state_def list_all_iff)
  then show ?thesis
    by (simp add: get_photo_def create_photo_def Let_def get_loop_append)
qed

text \<open>
  C5: in a reachable state, a create request with a body that validates succeeds, and
  \<open>get_photo\<close> with the id it returned then succeeds with the very record returned by
  the creation.
\<close>

theorem create_then_get:
  assumes "reachable validate st" and "validate body = Some photo"
  shows "\<exists>new st'.
           handle validate now (CreatePhoto body) st = (Inr (PhotoCreated new), st') \<and>
           create_photo now photo st = (new, st') \<and>
           get_photo (d_id new) st' = Inr new \<and>
           handle validate now' (GetPhoto (d_id new)) st' = (Inr (PhotoFound new), st')"
proof -
  obtain new st' where c: "create_photo now photo st = (new, st')"
    by (cases "create_photo now photo st")
  from get_photo_created [OF reachable_wf_state [OF assms(1)], of now photo] c
  have "get_photo (d_id new) st' = Inr new" by simp
  with c assms(2) show ?thesis by simp
qed

text \<open>
  C6: in a reachable state, after a successful \<open>delete_photo\<close> of an id, \<open>get_photo\<close>
  of that id fails with the 404 for it; the record removed (and returned) has that id;
  the collection is the old one without that one element, the others in their order and
  unchanged; the counter is unchanged.
\<close>

theorem delete_then_get:
  assumes "reachable validate st"
    and "delete_photo photo_id st = (Inr (msg, deleted_photo), st')"
  shows "get_photo photo_id st' = Inl (not_found photo_id) \<and>
         d_id deleted_photo = photo_id \<and>
         (\<exists>xs ys. photos_db st = xs @ deleted_photo # ys \<and> photos_db st' = xs @ ys) \<and>
         photo_id_counter st' = photo_id_counter st"
proof -
  have present: "photo_id \<in> d_id ` set (photos_db st)"
  proof (rule ccontr)
    assume "photo_id \<notin> d_id ` set (photos_db st)"
    from delete_photo_absent [OF this] assms(2) show False by simp
  qed
  from delete_photo_present [OF present] assms(2) obtain xs ys where
    split: "photos_db st = xs @ deleted_photo # ys" "d_id deleted_photo = photo_id"
      "st' = st\<lparr>photos_db := xs @ ys\<rparr>"
    by auto
  from reachable_wf_state [OF assms(1)] split
  have "photo_id \<notin> d_id ` set (xs @ ys)"
    by (auto simp: wf_state_def)
  with split have "photo_id \<notin> d_id ` set (photos_db st')" by simp
  from get_photo_absent [OF this] split show ?thesis by auto
qed

text \<open>
  C9: for an id that no record has, \<open>get_photo\<close>, \<open>update_photo\<close> and
  \<open>delete_photo\<close> all fail with status 404 and the detail
  "Photo with id N not found", where N is the canonical decimal form of the id asked for,
  and the only string that is one.
\<close>

theorem absent_id_not_found:
  assumes "photo_id \<notin> d_id ` set (photos_db st)"
  shows "get_photo photo_id st
           = Inl (HTTPException 404 (''Photo with id '' @ str_int photo_id @ '' not found'')) \<and>
         update_photo photo_id photo st
           = (Inl (HTTPException 404 (''Photo with id '' @ str_int photo_id @ '' not found'')), st) \<and>
         delete_photo photo_id st
           = (Inl (HTTPException 404 (''Photo with id '' @ str_int photo_id @ '' not found'')), st) \<and>
         decimal_of photo_id (str_int photo_id) \<and>
         (\<forall>s. decimal_of photo_id s \<longrightarrow> s = str_int photo_id)"
proof -
  have "get_photo photo_id st
           = Inl (HTTPException 404 (''Photo with id '' @ str_int photo_id @ '' not found''))"
    using get_photo_absent [OF assms] by (simp add: not_found_def)
  moreover have "update_photo photo_id photo st
           = (Inl (HTTPException 404 (''Photo with id '' @ str_int photo_id @ '' not found'')), st)"
    using update_photo_absent [OF assms] by (simp add: not_found_def)
  moreover have "delete_photo photo_id st
           = (Inl (HTTPException 404 (''Photo with id '' @ str_int photo_id @ '' not found'')), st)"
    using delete_photo_absent [OF assms] by (simp add: not_found_def)
  moreover have "decimal_of photo_id (str_int photo_id)"
    by (rule decimal_of_str_int)
  moreover have "\<forall>s. decimal_of photo_id s \<longrightarrow> s = str_int photo_id"
    by (blast intro: decimal_of_unique)
  ultimately show ?thesis by blast
qed

text \<open>
  C8: a creation from a body that gives only title and url returns a record with no
  description and an empty tag list; that record is the one appended to the collection and
  the one \<open>get_photo\<close> then returns for its id.
\<close>

theorem create_minimal_defaults:
  assumes "reachable validate st"
    and "create_photo now (Photo_init t None u None) st = (new, st')"
  shows "d_description new = None \<and> d_tags new = [] \<and>
         d_title new = t \<and> d_url new = u \<and>
         last (photos_db st') = new \<and>
         get_photo (d_id new) st' = Inr new"
proof -
  from get_photo_created [OF reachable_wf_state [OF assms(1)], of now "Photo_init t None u None"]
    assms(2)
  have "get_photo (d_id new) st' = Inr new" by simp
  moreover from assms(2) have "d_description new = None \<and> d_tags new = [] \<and>
         d_title new = t \<and> d_url new = u \<and> last (photos_db st') = new"
    by (auto simp: create_photo_def Let_def Photo_init_def tags_or_empty_def)
  ultimately show ?thesis by simp
qed

subsection \<open>Ids are never reused\<close>

lemma handle_ids:
  assumes "handle validate now req st = (r, st')"
  shows "d_id ` set (photos_db st') \<subseteq> d_id ` set (photos_db st) \<union> {photo_id_counter st}"
proof (cases req)
  case (CreatePhoto body)
  with assms show ?thesis
    by (auto simp: create_photo_def Let_def split: option.splits)
next
  case (UpdatePhoto photo_id body)
  show ?thesis
  proof (cases "validate body")
    case None
    with assms UpdatePhoto show ?thesis by auto
  next
    case (Some photo)
    show ?thesis
    proof (cases "photo_id \<in> d_id ` set (photos_db st)")
      case True
      from update_photo_present [OF True, of photo] assms UpdatePhoto Some
      show ?thesis by (auto simp: updated_from_def)
    next
      case False
      from update_photo_absent [OF False, of photo] assms UpdatePhoto Some
      show ?thesis by auto
    qed
  qed
next
  case (DeletePhoto photo_id)
  show ?thesis
  proof (cases "photo_id \<in> d_id ` set (photos_db st)")
    case True
    from delete_photo_present [OF True] assms DeletePhoto
    show ?thesis by auto
  next
    case False
    from delete_photo_absent [OF False] assms DeletePhoto
    show ?thesis by auto
  qed
qed (use assms in \<open>auto split: sum.splits\<close>)

lemma handle_counter_mono:
  "handle validate now req st = (r, st') \<Longrightarrow> photo_id_counter st \<le> photo_id_counter st'"
  using handle_created [of validate now req st r st'] handle_not_created [of validate now req st r st']
  by (cases "is_created r") auto

lemma run_ids:
  "run validate evs st = (rs, st') \<Longrightarrow>
     d_id ` set (photos_db st') \<subseteq> d_id ` set (photos_db st) \<union> {photo_id_counter st ..}"
proof (induction evs arbitrary: st rs st')
  case Nil
  then show ?case by auto
next
  case (Cons ev evs)
  obtain now req where ev: "ev = (now, req)" by (cases ev)
  obtain r st1 where h: "handle validate now req st = (r, st1)" by (cases "handle validate now req st")
  obtain rs1 st2 where t: "run validate evs st1 = (rs1, st2)" by (cases "run validate evs st1")
  from Cons.prems ev h t have st': "st' = st2" by simp
  have A: "d_id ` set (photos_db st2) \<subseteq> d_id ` set (photos_db st1) \<union> {photo_id_counter st1 ..}"
    by (rule Cons.IH [OF t])
  have B: "d_id ` set (photos_db st1) \<subseteq> d_id ` set (photos_db st) \<union> {photo_id_counter st}"
    by (rule handle_ids [OF h])
  have C: "photo_id_counter st \<le> photo_id_counter st1"
    by (rule handle_counter_mono [OF h])
  show ?case unfolding st'
  proof
    fix x assume "x \<in> d_id ` set (photos_db st2)"
    with A have "x \<in> d_id ` set (photos_db st1) \<or> photo_id_counter st1 \<le> x" by blast
    then show "x \<in> d_id ` set (photos_db st) \<union> {photo_id_counter st ..}"
    proof
      assume "x \<in> d_id ` set (photos_db st1)"
      with B have "x \<in> d_id ` set (photos_db st) \<or> x = photo_id_counter st" by blast
      then show ?thesis by (simp add: disj_commute) (metis order_refl)
    next
      assume "photo_id_counter st1 \<le> x"
      with C show ?thesis by simp
    qed
  qed
qed

lemma run_created_ids_ge:
  assumes "run validate evs st = (rs, st')" and "i \<in> set (created_ids rs)"
  shows "photo_id_counter st \<le> i"
proof -
  from run_created_ids [OF assms(1)]
  have "set (created_ids rs) =
          set [photo_id_counter st .. photo_id_counter st + int (length (created_ids rs)) - 1]"
    by simp
  with assms(2) show ?thesis by simp
qed

lemma deleted_id_gone:
  assumes "reachable validate st"
    and "delete_photo photo_id st = (Inr (msg, deleted_photo), st')"
  shows "photo_id \<notin> d_id ` set (photos_db st')" and "photo_id < photo_id_counter st'"
proof -
  have present: "photo_id \<in> d_id ` set (photos_db st)"
  proof (rule ccontr)
    assume "photo_id \<notin> d_id ` set (photos_db st)"
    from delete_photo_absent [OF this] assms(2) show False by simp
  qed
  from delete_photo_present [OF present] assms(2) obtain xs ys where
    split: "photos_db st = xs @ deleted_photo # ys" "d_id deleted_photo = photo_id"
      "st' = st\<lparr>photos_db := xs @ ys\<rparr>"
    by auto
  from reachable_wf_state [OF assms(1)] split
  show "photo_id \<notin> d_id ` set (photos_db st')"
    by (auto simp: wf_state_def)
  from reachable_wf_state [OF assms(1)] split
  show "photo_id < photo_id_counter st'"
    by (auto simp: wf_state_def)
qed

text \<open>
  C7: in a reachable state no two records have the same id; and once \<open>delete_photo\<close> has
  removed an id there, no later creation returns that id and no later state holds a
  record with it, whatever requests follow.
\<close>

theorem ids_unique_never_reused:
  assumes "reachable validate st"
  shows "distinct (map d_id (photos_db st)) \<and>
         (delete_photo photo_id st = (Inr deleted, st') \<longrightarrow>
            photo_id \<notin> set (created_ids (fst (run validate evs st'))) \<and>
            photo_id \<notin> d_id ` set (photos_db (snd (run validate evs st'))))"
proof (intro conjI impI)
  from reachable_wf_state [OF assms] show "distinct (map d_id (photos_db st))"
    by (simp add: wf_state_def)
next
  assume del: "delete_photo photo_id st = (Inr deleted, st')"
  obtain msg deleted_photo where "deleted = (msg, deleted_photo)" by (cases deleted)
  with del have del': "delete_photo photo_id st = (Inr (msg, deleted_photo), st')" by simp
  from deleted_id_gone [OF assms del']
  have gone: "photo_id \<notin> d_id ` set (photos_db st')"
    and below: "photo_id < photo_id_counter st'" by simp_all
  obtain rs st'' where r: "run validate evs st' = (rs, st'')" by (cases "run validate evs st'")
  from run_created_ids_ge [OF r] below
  show "photo_id \<notin> set (created_ids (fst (run validate evs st')))"
    using r by fastforce
  from run_ids [OF r] gone below
  show "photo_id \<notin> d_id ` set (photos_db (snd (run validate evs st')))"
    using r by fastforce
qed

subsection \<open>The sample run\<close>

lemmas demo_defs =
  photo_sunset_def photo_peak_def photo_valley_def photo_minimal_def Photo_init_def
  demo_requests_def init_state_def create_photo_def tags_or_empty_def Let_def

lemma demo_state_eq:
  "demo_state =
     \<lparr>photos_db =
        [\<lparr>d_id = 1, d_title = ''Sunset'', d_description = Some ''Beach at dusk'',
          d_url = ''https://example.com/sunset.jpg'', d_tags = [''nature'', ''beach''],
          d_created_at = ''2024-01-01T10:00:00''\<rparr>,
         \<lparr>d_id = 2, d_title = ''Peak'', d_description = None,
          d_url = ''https://example.com/peak.jpg'', d_tags = [''mountain''],
          d_created_at = ''2024-01-01T10:00:01''\<rparr>,
         \<lparr>d_id = 3, d_title = ''Valley'', d_description = None,
          d_url = ''https://example.com/valley.jpg'', d_tags = [''nature'', ''landscape''],
          d_created_at = ''2024-01-01T10:00:02''\<rparr>],
      photo_id_counter = 4\<rparr>"
  by (simp add: demo_state_def demo_defs)

lemma reachable_run:
  "reachable validate st \<Longrightarrow> run validate evs st = (rs, st') \<Longrightarrow> reachable validate st'"
proof (induction evs arbitrary: st rs st')
  case Nil
  then show ?case by simp
next
  case (Cons ev evs)
  obtain now req where ev: "ev = (now, req)" by (cases ev)
  obtain r st1 where h: "handle validate now req st = (r, st1)" by (cases "handle validate now req st")
  obtain rs1 st2 where t: "run validate evs st1 = (rs1, st2)" by (cases "run validate evs st1")
  from Cons.prems(2) ev h t have "st' = st2" by simp
  moreover from Cons.prems(1) h have "reachable validate st1" by (rule reachable_step)
  ultimately show ?case using Cons.IH [OF _ t] by simp
qed

lemma demo_state_reachable: "reachable id demo_state"
  unfolding demo_state_def
  by (rule reachable_run [OF reachable_init, of _ demo_requests "fst (run id demo_requests init_state)"]) simp

lemma str_int_999: "str_int 999 = ''999''"
  by (simp add: str_int_def str_nat.simps digit_char_def)

lemma str_int_3: "str_int 3 = ''3''"
  by (simp add: str_int_def str_nat.simps digit_char_def)

lemma str_int_neg_42: "str_int (- 42) = ''-42''"
  by (simp add: str_int_def str_nat.simps digit_char_def)

lemmas dict_defs = dict_sunset_def dict_peak_def dict_valley_def dict_minimal_def

lemma demo_state_dicts:
  "demo_state = \<lparr>photos_db = [dict_sunset, dict_peak, dict_valley], photo_id_counter = 4\<rparr>"
  by (simp add: demo_state_eq dict_defs)

lemma str_int_2: "str_int 2 = ''2''"
  by (simp add: str_int_def str_nat.simps digit_char_def)

lemmas eval_defs =
  get_photo_def update_photo_def delete_photo_def create_photo_def list_photos_def pop_def
  not_found_def tags_or_empty_def Photo_init_def photo_minimal_def Let_def
  str_int_2 str_int_3 str_int_999

lemma sample_run:
  "run id (demo_requests @ later_requests) init_state = (sample_replies, sample_final)"
  by (simp add: demo_requests_def later_requests_def sample_replies_def sample_final_def
        init_state_def photo_sunset_def photo_peak_def photo_valley_def dict_defs eval_defs)

subsection \<open>The properties on the sample run\<close>

theorem create_ids_consecutive_witness:
  "run id (demo_requests @ later_requests) init_state = (sample_replies, sample_final) \<and>
   handle id ''2024-01-01T10:00:03'' (DeletePhoto 2) demo_state
     = (Inr (PhotoDeleted (''Photo 2 deleted successfully'', dict_peak)),
        \<lparr>photos_db = [dict_sunset, dict_valley], photo_id_counter = 4\<rparr>) \<and>
   created_ids sample_replies = [1, 2, 3, 4] \<and>
   photo_id_counter sample_final = 5 \<and>
   photo_id_counter demo_state = 4"
proof -
  have h: "handle id ''2024-01-01T10:00:03'' (DeletePhoto 2) demo_state
     = (Inr (PhotoDeleted (''Photo 2 deleted successfully'', dict_peak)),
        \<lparr>photos_db = [dict_sunset, dict_valley], photo_id_counter = 4\<rparr>)"
    by (simp add: demo_state_dicts dict_defs eval_defs)
  have len: "length (created_ids sample_replies) = 4"
    by (simp add: sample_replies_def)
  from create_ids_consecutive [OF sample_run h, of 2] len
  have "created_ids sample_replies = [1, 2, 3, 4] \<and> photo_id_counter sample_final = 5
          \<and> photo_id_counter demo_state = 4"
    by (simp add: upto_rec1)
  with sample_run h show ?thesis by simp
qed

theorem failed_request_leaves_state_witness:
  "fst (handle id ''2024-01-01T10:00:06'' (UpdatePhoto 999 (Some photo_minimal)) demo_state)
     = Inl (HTTPException 404 ''Photo with id 999 not found'') \<and>
   snd (handle id ''2024-01-01T10:00:06'' (UpdatePhoto 999 (Some photo_minimal)) demo_state)
     = demo_state \<and>
   list_photos None
      (snd (handle id ''2024-01-01T10:00:06'' (UpdatePhoto 999 (Some photo_minimal)) demo_state))
     = [dict_sunset, dict_peak, dict_valley]"
proof -
  let ?h = "handle id ''2024-01-01T10:00:06'' (UpdatePhoto 999 (Some photo_minimal)) demo_state"
  have f: "fst ?h = Inl (HTTPException 404 ''Photo with id 999 not found'')"
    by (simp add: demo_state_dicts dict_defs eval_defs)
  then have h: "?h = (Inl (HTTPException 404 ''Photo with id 999 not found''), snd ?h)"
    by (simp add: prod_eq_iff)
  from failed_request_leaves_state [OF h, of None]
  have "snd ?h = demo_state" and "list_photos None (snd ?h) = list_photos None demo_state"
    by simp_all
  with f show ?thesis by (simp add: list_photos_def demo_state_dicts)
qed

theorem update_photo_overwrites_witness:
  "2 \<in> d_id ` set (photos_db demo_state) \<and>
   update_photo 2 photo_updated demo_state =
     (Inr dict_peak_updated,
      \<lparr>photos_db = [dict_sunset, dict_peak_updated, dict_valley], photo_id_counter = 4\<rparr>) \<and>
   update_photo 2 photo_minimal demo_state =
     (Inr dict_peak_minimal,
      \<lparr>photos_db = [dict_sunset, dict_peak_minimal, dict_valley], photo_id_counter = 4\<rparr>) \<and>
   d_title dict_peak_updated = ''Updated Title'' \<and>
   d_description dict_peak_updated = Some ''New description'' \<and>
   d_url dict_peak_updated = ''https://example.com/updated.jpg'' \<and>
   d_tags dict_peak_updated = [''updated'', ''modified''] \<and>
   d_description dict_peak_minimal = None \<and>
   d_tags dict_peak_minimal = [] \<and>
   d_created_at dict_peak_updated = d_created_at dict_peak \<and>
   d_id dict_peak_updated = d_id dict_peak"
proof -
  have h: "2 \<in> d_id ` set (photos_db demo_state)"
    by (simp add: demo_state_dicts dict_defs)
  have e1: "update_photo 2 photo_updated demo_state =
     (Inr dict_peak_updated,
      \<lparr>photos_db = [dict_sunset, dict_peak_updated, dict_valley], photo_id_counter = 4\<rparr>)"
    by (simp add: demo_state_dicts dict_defs eval_defs photo_updated_def dict_peak_updated_def)
  have e2: "update_photo 2 photo_minimal demo_state =
     (Inr dict_peak_minimal,
      \<lparr>photos_db = [dict_sunset, dict_peak_minimal, dict_valley], photo_id_counter = 4\<rparr>)"
    by (simp add: demo_state_dicts dict_defs eval_defs dict_peak_minimal_def)
  from update_photo_overwrites [OF h, of photo_updated "''2024-01-01T10:00:06''"]
  obtain xs old ys where
    r1: "update_photo 2 photo_updated demo_state =
           (Inr (updated_from 2 photo_updated old),
            \<lparr>photos_db = xs @ updated_from 2 photo_updated old # ys,
             photo_id_counter = photo_id_counter demo_state\<rparr>)"
    and f1: "d_title (updated_from 2 photo_updated old) = title photo_updated"
      "d_description (updated_from 2 photo_updated old) = description photo_updated"
      "d_url (updated_from 2 photo_updated old) = url photo_updated"
      "d_tags (updated_from 2 photo_updated old)
         = (case tags photo_updated of None \<Rightarrow> [] | Some ts \<Rightarrow> ts)"
    by (elim exE conjE)
  from r1 e1 have "updated_from 2 photo_updated old = dict_peak_updated" by simp
  with f1 have a: "d_title dict_peak_updated = ''Updated Title''"
    "d_description dict_peak_updated = Some ''New description''"
    "d_url dict_peak_updated = ''https://example.com/updated.jpg''"
    "d_tags dict_peak_updated = [''updated'', ''modified'']"
    by (simp_all add: photo_updated_def Photo_init_def)
  from update_photo_overwrites [OF h, of photo_minimal "''2024-01-01T10:00:06''"]
  obtain xs' old' ys' where
    r2: "update_photo 2 photo_minimal demo_state =
           (Inr (updated_from 2 photo_minimal old'),
            \<lparr>photos_db = xs' @ updated_from 2 photo_minimal old' # ys',
             photo_id_counter = photo_id_counter demo_state\<rparr>)"
    and f2: "d_description (updated_from 2 photo_minimal old') = description photo_minimal"
      "d_tags (updated_from 2 photo_minimal old')
         = (case tags photo_minimal of None \<Rightarrow> [] | Some ts \<Rightarrow> ts)"
    by (elim exE conjE)
  from r2 e2 have "updated_from 2 photo_minimal old' = dict_peak_minimal" by simp
  with f2 have b: "d_description dict_peak_minimal = None" "d_tags dict_peak_minimal = []"
    by (simp_all add: photo_minimal_def Photo_init_def)
  have c: "d_created_at dict_peak_updated = d_created_at dict_peak"
    "d_id dict_peak_updated = d_id dict_peak"
    by (simp_all add: dict_peak_updated_def dict_defs)
  from h e1 e2 a b c show ?thesis by simp
qed

theorem list_photos_nonempty_tag_witness:
  "''nature'' \<noteq> [] \<and> ''city'' \<noteq> [] \<and>
   list_photos (Some ''nature'') demo_state = [dict_sunset, dict_valley] \<and>
   list_photos (Some ''city'') demo_state = []"
proof -
  have h1: "''nature'' \<noteq> []" and h2: "''city'' \<noteq> []" by simp_all
  from list_photos_nonempty_tag [OF h1, of demo_state]
  have a: "list_photos (Some ''nature'') demo_state = [dict_sunset, dict_valley]"
    by (simp add: demo_state_dicts dict_defs)
  have none: "\<forall>p \<in> set (photos_db demo_state). ''city'' \<notin> set (d_tags p)"
    by (simp add: demo_state_dicts dict_defs)
  from list_photos_nonempty_tag [OF h2, of demo_state] none
  have b: "list_photos (Some ''city'') demo_state = []" by blast
  from h1 h2 a b show ?thesis by simp
qed

text \<open>
  C4 as stated, for every tag, fails at the empty string: in the sample state the listing
  for it holds the second record, whose tags do not contain the empty string.
\<close>

theorem list_photos_every_tag_counterexample:
  "list_photos (Some []) demo_state = [dict_sunset, dict_peak, dict_valley] \<and>
   dict_peak \<in> set (list_photos (Some []) demo_state) \<and>
   [] \<notin> set (d_tags dict_peak)"
  by (simp add: list_photos_def demo_state_dicts dict_defs)

theorem list_photos_empty_tag_witness:
  "list_photos (Some []) demo_state = [dict_sunset, dict_peak, dict_valley] \<and>
   list_photos None demo_state = [dict_sunset, dict_peak, dict_valley] \<and>
   [] \<notin> set (d_tags dict_peak)"
proof -
  note t = list_photos_empty_tag [of demo_state]
  from t have b: "list_photos (Some []) demo_state = list_photos None demo_state"
    by (rule conjunct1)
  from t have a: "list_photos (Some []) demo_state = photos_db demo_state"
    by (rule conjunct2)
  have c: "photos_db demo_state = [dict_sunset, dict_peak, dict_valley]"
    by (simp add: demo_state_dicts)
  have d: "[] \<notin> set (d_tags dict_peak)"
    by (simp add: dict_defs)
  from a b c d show ?thesis by simp
qed

theorem create_then_get_witness:
  "reachable id demo_state \<and> id (Some photo_minimal) = Some photo_minimal \<and>
   handle id ''2024-01-01T10:00:05'' (CreatePhoto (Some photo_minimal)) demo_state
     = (Inr (PhotoCreated dict_minimal),
        \<lparr>photos_db = [dict_sunset, dict_peak, dict_valley, dict_minimal],
         photo_id_counter = 5\<rparr>) \<and>
   get_photo 4
     \<lparr>photos_db = [dict_sunset, dict_peak, dict_valley, dict_minimal], photo_id_counter = 5\<rparr>
     = Inr dict_minimal"
proof -
  let ?st' = "\<lparr>photos_db = [dict_sunset, dict_peak, dict_valley, dict_minimal],
               photo_id_counter = 5\<rparr>"
  have v: "id (Some photo_minimal) = Some photo_minimal" by simp
  have c: "create_photo ''2024-01-01T10:00:05'' photo_minimal demo_state = (dict_minimal, ?st')"
    by (simp add: demo_state_dicts dict_defs eval_defs)
  from create_then_get [OF demo_state_reachable v,
      of "''2024-01-01T10:00:05''" "''2024-01-01T10:00:06''"]
  obtain new st' where
    h: "handle id ''2024-01-01T10:00:05'' (CreatePhoto (Some photo_minimal)) demo_state
          = (Inr (PhotoCreated new), st')"
    and c': "create_photo ''2024-01-01T10:00:05'' photo_minimal demo_state = (new, st')"
    and g: "get_photo (d_id new) st' = Inr new"
    by blast
  from c c' have n: "new = dict_minimal" "st' = ?st'" by simp_all
  have "d_id dict_minimal = 4" by (simp add: dict_defs)
  with h g n demo_state_reachable show ?thesis by simp
qed

theorem delete_then_get_witness:
  "reachable id demo_state \<and>
   delete_photo 3 demo_state
     = (Inr (''Photo 3 deleted successfully'', dict_valley),
        \<lparr>photos_db = [dict_sunset, dict_peak], photo_id_counter = 4\<rparr>) \<and>
   get_photo 3 \<lparr>photos_db = [dict_sunset, dict_peak], photo_id_counter = 4\<rparr>
     = Inl (HTTPException 404 ''Photo with id 3 not found'') \<and>
   d_id dict_valley = 3"
proof -
  let ?st' = "\<lparr>photos_db = [dict_sunset, dict_peak], photo_id_counter = 4\<rparr>"
  have d: "delete_photo 3 demo_state
             = (Inr (''Photo 3 deleted successfully'', dict_valley), ?st')"
    by (simp add: demo_state_dicts dict_defs eval_defs)
  from delete_then_get [OF demo_state_reachable d]
  have "get_photo 3 ?st' = Inl (not_found 3)" and "d_id dict_valley = 3"
    by simp_all
  with d demo_state_reachable show ?thesis by (simp add: not_found_def str_int_3)
qed

theorem ids_unique_never_reused_witness:
  "reachable id demo_state \<and>
   distinct (map d_id (photos_db demo_state)) \<and>
   delete_photo 2 demo_state
     = (Inr (''Photo 2 deleted successfully'', dict_peak),
        \<lparr>photos_db = [dict_sunset, dict_valley], photo_id_counter = 4\<rparr>) \<and>
   2 \<notin> set (created_ids (fst (run id (tl later_requests)
                \<lparr>photos_db = [dict_sunset, dict_valley], photo_id_counter = 4\<rparr>))) \<and>
   2 \<notin> d_id ` set (photos_db (snd (run id (tl later_requests)
                \<lparr>photos_db = [dict_sunset, dict_valley], photo_id_counter = 4\<rparr>)))"
proof -
  let ?st' = "\<lparr>photos_db = [dict_sunset, dict_valley], photo_id_counter = 4\<rparr>"
  have d: "delete_photo 2 demo_state
             = (Inr (''Photo 2 deleted successfully'', dict_peak), ?st')"
    by (simp add: demo_state_dicts dict_defs eval_defs)
  from ids_unique_never_reused [OF demo_state_reachable,
      of 2 "(''Photo 2 deleted successfully'', dict_peak)" ?st' "tl later_requests"] d
  have "distinct (map d_id (photos_db demo_state))"
    and "2 \<notin> set (created_ids (fst (run id (tl later_requests) ?st')))"
    and "2 \<notin> d_id ` set (photos_db (snd (run id (tl later_requests) ?st')))"
    by blast+
  with d demo_state_reachable show ?thesis by blast
qed

theorem create_minimal_defaults_witness:
  "reachable id demo_state \<and>
   create_photo ''2024-01-01T10:00:05''
      (Photo_init ''Minimal'' None ''https://example.com/minimal.jpg'' None) demo_state
     = (dict_minimal,
        \<lparr>photos_db = [dict_sunset, dict_peak, dict_valley, dict_minimal],
         photo_id_counter = 5\<rparr>) \<and>
   d_description dict_minimal = None \<and> d_tags dict_minimal = [] \<and>
   get_photo (d_id dict_minimal)
     \<lparr>photos_db = [dict_sunset, dict_peak, dict_valley, dict_minimal], photo_id_counter = 5\<rparr>
     = Inr dict_minimal"
proof -
  let ?st' = "\<lparr>photos_db = [dict_sunset, dict_peak, dict_valley, dict_minimal],
               photo_id_counter = 5\<rparr>"
  have c: "create_photo ''2024-01-01T10:00:05''
             (Photo_init ''Minimal'' None ''https://example.com/minimal.jpg'' None) demo_state
           = (dict_minimal, ?st')"
    by (simp add: demo_state_dicts dict_defs eval_defs)
  from create_minimal_defaults [OF demo_state_reachable c]
  have "d_description dict_minimal = None \<and> d_tags dict_minimal = [] \<and>
        get_photo (d_id dict_minimal) ?st' = Inr dict_minimal"
    by simp
  with c demo_state_reachable show ?thesis by simp
qed

theorem absent_id_not_found_witness:
  "999 \<notin> d_id ` set (photos_db demo_state) \<and>
   get_photo 999 demo_state = Inl (HTTPException 404 ''Photo with id 999 not found'') \<and>
   update_photo 999 photo_minimal demo_state
     = (Inl (HTTPException 404 ''Photo with id 999 not found''), demo_state) \<and>
   delete_photo 999 demo_state
     = (Inl (HTTPException 404 ''Photo with id 999 not found''), demo_state) \<and>
   decimal_of 999 ''999'' \<and>
   - 42 \<notin> d_id ` set (photos_db demo_state) \<and>
   get_photo (- 42) demo_state = Inl (HTTPException 404 ''Photo with id -42 not found'') \<and>
   decimal_of (- 42) ''-42''"
proof -
  have h: "999 \<notin> d_id ` set (photos_db demo_state)"
    by (simp add: demo_state_dicts dict_defs)
  have g: "- 42 \<notin> d_id ` set (photos_db demo_state)"
    by (simp add: demo_state_dicts dict_defs)
  note t1 = absent_id_not_found [OF h, of photo_minimal]
  note t2 = absent_id_not_found [OF g, of photo_minimal]
  from t1 have a0: "get_photo 999 demo_state
           = Inl (HTTPException 404 (''Photo with id '' @ str_int 999 @ '' not found'')) \<and>
         update_photo 999 photo_minimal demo_state
           = (Inl (HTTPException 404 (''Photo with id '' @ str_int 999 @ '' not found'')), demo_state) \<and>
         delete_photo 999 demo_state
           = (Inl (HTTPException 404 (''Photo with id '' @ str_int 999 @ '' not found'')), demo_state) \<and>
         decimal_of 999 (str_int 999)" by blast
  from t2 have b0: "get_photo (- 42) demo_state
           = Inl (HTTPException 404 (''Photo with id '' @ str_int (- 42) @ '' not found'')) \<and>
         decimal_of (- 42) (str_int (- 42))" by blast
  from a0
  have a: "get_photo 999 demo_state = Inl (HTTPException 404 ''Photo with id 999 not found'') \<and>
   update_photo 999 photo_minimal demo_state
     = (Inl (HTTPException 404 ''Photo with id 999 not found''), demo_state) \<and>
   delete_photo 999 demo_state
     = (Inl (HTTPException 404 ''Photo with id 999 not found''), demo_state) \<and>
   decimal_of 999 ''999''"
    by (simp add: str_int_999)
  from b0
  have b: "get_photo (- 42) demo_state = Inl (HTTPException 404 ''Photo with id -42 not found'') \<and>
   decimal_of (- 42) ''-42''"
    by (simp add: str_int_neg_42)
  from h g a b show ?thesis by simp
qed

end
